theory Spec2Isabelle
  imports Main
begin

section \<open>sttp: the state transition table parser\<close>

text \<open>
  A shallow embedding of \<^verbatim>\<open>STTP._parse\<close>, \<^verbatim>\<open>STTP._validate_stt\<close> and
  \<^verbatim>\<open>STTP.dictify\<close> of \<^verbatim>\<open>src/sttp.py\<close>.

  The input of the model is what \<^verbatim>\<open>csv.reader\<close> yields: a list of rows, each row a
  list of cells, the header row first. A cell is a \<open>string\<close>; every \<open>char\<close> stands for
  one code point below 256. Opening and decoding the file is outside the model.

  Every \<^verbatim>\<open>raise\<close> of the source, and every exception of a Python primitive it
  calls, is a value of \<open>error\<close> on the left of a sum.
\<close>

subsection \<open>Errors\<close>

text \<open>
  \<open>STTPError_header\<close> is \<^verbatim>\<open>STTPError('Invalid header format: must be: [...]')\<close>.
  \<open>STTPError_row row message\<close> is what \<^verbatim>\<open>_parse_error(row, message)\<close> raises,
  \<^verbatim>\<open>STTPError(f'Invalid row: {row}. {message}')\<close>: the two parts of the text are
  kept apart, the row unrendered.
\<close>

datatype error =
    STTPError_header
  | STTPError_row "string list" string
  | IndexError
  | KeyError string
  | StopIteration
  | AssertionError

subsection \<open>Class constants\<close>

definition SOURCE_HEADER :: string where "SOURCE_HEADER = ''SOURCE''"
definition DEST_HEADER :: string where "DEST_HEADER = ''DEST''"
definition TRIGGER_HEADER :: string where "TRIGGER_HEADER = ''TRIGGER''"

definition HEADER_ROW :: "string list" where
  "HEADER_ROW = [SOURCE_HEADER, DEST_HEADER, TRIGGER_HEADER]"

definition SOURCE_KEY :: string where "SOURCE_KEY = ''source''"
definition DEST_KEY :: string where "DEST_KEY = ''dest''"
definition TRIGGER_KEY :: string where "TRIGGER_KEY = ''trigger''"

definition TRANSITION_KEYS :: "string list" where
  "TRANSITION_KEYS = [SOURCE_KEY, DEST_KEY, TRIGGER_KEY]"

definition EVENT_PREFIX :: string where "EVENT_PREFIX = ''_''"
definition EVENT_STR :: string where "EVENT_STR = ''EVT''"
definition TIMED_TRANSITION_PREFIX :: string where "TIMED_TRANSITION_PREFIX = ''__''"

subsection \<open>Python primitives the parser calls\<close>

text \<open>\<^verbatim>\<open>row[i]\<close> on a list, for the non-negative indices the source uses.\<close>

definition getitem :: "'a list \<Rightarrow> nat \<Rightarrow> error + 'a" where
  "getitem xs i = (if i < length xs then Inr (xs ! i) else Inl IndexError)"

text \<open>
  \<^verbatim>\<open>int(s)\<close> on a string, base ten: surrounding whitespace is dropped, one sign is
  allowed, then decimal digits, where a single underscore may stand between two digits.
  More than 4300 digits are refused (the interpreter's default limit on integer string
  conversion). \<open>None\<close> is \<^verbatim>\<open>ValueError\<close>.
\<close>

definition is_space :: "char \<Rightarrow> bool" where
  "is_space c \<longleftrightarrow>
     c \<in> set [CHR 0x09, CHR 0x0A, CHR 0x0B, CHR 0x0C, CHR 0x0D, CHR 0x20, CHR 0x85, CHR 0xA0]"

definition strip :: "string \<Rightarrow> string" where
  "strip s = rev (dropWhile is_space (rev (dropWhile is_space s)))"

definition is_digit :: "char \<Rightarrow> bool" where
  "is_digit c \<longleftrightarrow> c \<in> set ''0123456789''"

definition digit_val :: "char \<Rightarrow> nat" where
  "digit_val c = of_char c - 48"

fun digits_ok :: "string \<Rightarrow> bool" where
  "digits_ok [] = False"
| "digits_ok [c] = is_digit c"
| "digits_ok (c # d # cs) =
     (is_digit c \<and> (if d = CHR ''_'' then digits_ok cs else digits_ok (d # cs)))"

definition int_max_str_digits :: nat where
  "int_max_str_digits = 4300"

definition py_int :: "string \<Rightarrow> int option" where
  "py_int s =
     (let t = strip s;
          negative = (take 1 t = ''-'');
          body = (if take 1 t = ''+'' \<or> take 1 t = ''-'' then drop 1 t else t);
          ds = filter is_digit body
      in if digits_ok body \<and> length ds \<le> int_max_str_digits
         then Some ((if negative then - 1 else 1) *
                    int (foldl (\<lambda>acc c. 10 * acc + digit_val c) 0 ds))
         else None)"

text \<open>\<^verbatim>\<open>str(n)\<close> of an integer, as an f-string field renders it.\<close>

fun str_nat :: "nat \<Rightarrow> string" where
  "str_nat n =
     (if n < 10 then [''0123456789'' ! n]
      else str_nat (n div 10) @ [''0123456789'' ! (n mod 10)])"

declare str_nat.simps [simp del]

definition str_int :: "int \<Rightarrow> string" where
  "str_int i = (if i < 0 then ''-'' @ str_nat (nat (- i)) else str_nat (nat i))"

subsection \<open>Transitions\<close>

text \<open>
  A transition is the \<^verbatim>\<open>OrderedDict\<close> the loop builds: its items in insertion order,
  \<^verbatim>\<open>trigger\<close>, \<^verbatim>\<open>source\<close>, \<^verbatim>\<open>dest\<close>.
\<close>

type_synonym transition = "(string \<times> string) list"

definition mk_transition :: "string \<Rightarrow> string \<Rightarrow> string \<Rightarrow> transition" where
  "mk_transition trigger source dest =
     [(TRIGGER_KEY, trigger), (SOURCE_KEY, source), (DEST_KEY, dest)]"

text \<open>\<^verbatim>\<open>t[key]\<close> on a dictionary.\<close>

definition lookup :: "transition \<Rightarrow> string \<Rightarrow> error + string" where
  "lookup t key = (case map_of t key of None \<Rightarrow> Inl (KeyError key) | Some v \<Rightarrow> Inr v)"

subsection \<open>The parser\<close>

definition parse_error :: "string list \<Rightarrow> string \<Rightarrow> error" where
  "parse_error row message = STTPError_row row message"

text \<open>Lines 140 to 145: the source cell, and the source carried to the next row.\<close>

definition resolve_source ::
  "string list \<Rightarrow> string option \<Rightarrow> string \<Rightarrow> error + (string \<times> string option)" where
  "resolve_source row previous_source source =
     (if source = [] \<and> previous_source = None
        then Inl (parse_error row ''Undefined previous source state.'')
      else if source = [] then Inr (the previous_source, previous_source)
      else Inr (source, Some source))"

text \<open>Lines 148 to 164: the trigger cell.\<close>

definition timed_trigger_message :: "string \<Rightarrow> string" where
  "timed_trigger_message trigger_suffix =
     ''A '' @ [CHR 0x27] @ TIMED_TRANSITION_PREFIX @ [CHR 0x27] @ '' prefix '' @
     ''indicates a timed transition and must be'' @
     ''followed by a number (seconds). '' @
     ''Invalid value: '' @ trigger_suffix"

definition resolve_trigger :: "string list \<Rightarrow> string \<Rightarrow> string \<Rightarrow> error + string" where
  "resolve_trigger row dest trigger0 =
     (let trigger = (if trigger0 = [] then EVENT_PREFIX @ dest else trigger0)
      in if take 2 trigger = TIMED_TRANSITION_PREFIX then
           (let trigger_suffix = drop 2 trigger
            in case py_int trigger_suffix of
                 None \<Rightarrow> Inl (parse_error row (timed_trigger_message trigger_suffix))
               | Some seconds \<Rightarrow> Inr (''(after '' @ str_int seconds @ '' sec.)''))
         else
           (case getitem trigger 0 of
              Inl e \<Rightarrow> Inl e
            | Inr c \<Rightarrow>
                if [c] = EVENT_PREFIX then Inr (EVENT_STR @ ''_'' @ drop 1 trigger)
                else Inr trigger))"

text \<open>
  The body of the loop over the data rows (lines 137 to 170). The loop's state is
  \<open>(previous_source, stt)\<close>.
\<close>

definition parse_row ::
  "string option \<times> transition list \<Rightarrow> string list \<Rightarrow>
   error + (string option \<times> transition list)" where
  "parse_row st row =
     (case getitem row 0 of Inl e \<Rightarrow> Inl e | Inr source0 \<Rightarrow>
      case getitem row 1 of Inl e \<Rightarrow> Inl e | Inr dest \<Rightarrow>
      case getitem row 2 of Inl e \<Rightarrow> Inl e | Inr trigger0 \<Rightarrow>
      case resolve_source row (fst st) source0 of Inl e \<Rightarrow> Inl e
      | Inr (source, previous_source) \<Rightarrow>
      if dest = [] then Inl (parse_error row ''Undefined destination state.'')
      else
      case resolve_trigger row dest trigger0 of Inl e \<Rightarrow> Inl e
      | Inr trigger \<Rightarrow>
          Inr (previous_source, snd st @ [mk_transition trigger source dest]))"

fun parse_rows ::
  "string option \<times> transition list \<Rightarrow> string list list \<Rightarrow>
   error + (string option \<times> transition list)" where
  "parse_rows st [] = Inr st"
| "parse_rows st (row # rows) =
     (case parse_row st row of Inl e \<Rightarrow> Inl e | Inr st' \<Rightarrow> parse_rows st' rows)"

definition validate_stt :: "transition list \<Rightarrow> bool" where
  "validate_stt stt \<longleftrightarrow>
     list_all (\<lambda>transition. list_all (\<lambda>key. key \<in> fst ` set transition) TRANSITION_KEYS) stt"

definition parse :: "string list list \<Rightarrow> error + transition list" where
  "parse stt_csv =
     (case stt_csv of
        [] \<Rightarrow> Inl StopIteration
      | header_row # rows \<Rightarrow>
          if header_row \<noteq> HEADER_ROW then Inl STTPError_header
          else
            (case parse_rows (None, []) rows of
               Inl e \<Rightarrow> Inl e
             | Inr (previous_source, stt) \<Rightarrow>
                 if validate_stt stt then Inr stt else Inl AssertionError))"

subsection \<open>The adjacency mapping\<close>

type_synonym adjacency = "string \<rightharpoonup> (string \<rightharpoonup> string)"

text \<open>
  One turn of the loop of \<^verbatim>\<open>dictify\<close>:
  \<^verbatim>\<open>d.setdefault(t['source'], {})[t['dest']] = t['trigger']\<close>.
  Python evaluates the right-hand side first.
\<close>

definition dictify_step :: "adjacency \<Rightarrow> transition \<Rightarrow> error + adjacency" where
  "dictify_step d t =
     (case lookup t ''trigger'' of Inl e \<Rightarrow> Inl e | Inr trigger \<Rightarrow>
      case lookup t ''source'' of Inl e \<Rightarrow> Inl e | Inr source \<Rightarrow>
      case lookup t ''dest'' of Inl e \<Rightarrow> Inl e | Inr dest \<Rightarrow>
        (let inner = (case d source of None \<Rightarrow> Map.empty | Some m \<Rightarrow> m)
         in Inr (d(source \<mapsto> inner(dest \<mapsto> trigger)))))"

fun dictify_loop :: "adjacency \<Rightarrow> transition list \<Rightarrow> error + adjacency" where
  "dictify_loop d [] = Inr d"
| "dictify_loop d (t # ts) =
     (case dictify_step d t of Inl e \<Rightarrow> Inl e | Inr d' \<Rightarrow> dictify_loop d' ts)"

definition dictify :: "string list list \<Rightarrow> error + adjacency" where
  "dictify stt_csv =
     (case parse stt_csv of Inl e \<Rightarrow> Inl e | Inr stt \<Rightarrow> dictify_loop Map.empty stt)"

section \<open>Properties\<close>

subsection \<open>One row\<close>

lemmas sttp_consts =
  SOURCE_HEADER_def DEST_HEADER_def TRIGGER_HEADER_def HEADER_ROW_def
  SOURCE_KEY_def DEST_KEY_def TRIGGER_KEY_def TRANSITION_KEYS_def
  EVENT_PREFIX_def EVENT_STR_def TIMED_TRANSITION_PREFIX_def

lemma parse_row_short: "length row < 3 \<Longrightarrow> parse_row st row = Inl IndexError"
  by (cases row; cases "tl row"; cases "tl (tl row)")
     (auto simp: parse_row_def getitem_def)

lemma parse_row_cells:
  "parse_row st (s # d # t # ex) =
     (case resolve_source (s # d # t # ex) (fst st) s of
        Inl e \<Rightarrow> Inl e
      | Inr (source, previous_source) \<Rightarrow>
          if d = [] then Inl (parse_error (s # d # t # ex) ''Undefined destination state.'')
          else
            (case resolve_trigger (s # d # t # ex) d t of
               Inl e \<Rightarrow> Inl e
             | Inr trigger \<Rightarrow>
                 Inr (previous_source, snd st @ [mk_transition trigger source d])))"
  by (simp add: parse_row_def getitem_def)

lemma row_cases:
  obtains "length row < 3" | s d t ex where "row = s # d # t # ex"
  by (cases row; cases "tl row"; cases "tl (tl row)") auto

lemma resolve_trigger_nonempty:
  "resolve_trigger row d t = Inr trg \<Longrightarrow> trg \<noteq> []"
  by (auto simp: resolve_trigger_def Let_def getitem_def sttp_consts
           split: option.splits if_splits)

lemma resolve_source_nonempty:
  "resolve_source row prev s = Inr (src, prev') \<Longrightarrow> (\<forall>p. prev = Some p \<longrightarrow> p \<noteq> [])
     \<Longrightarrow> src \<noteq> [] \<and> prev' = Some (if s = [] then the prev else s) \<and>
         src = (if s = [] then the prev else s)"
  by (auto simp: resolve_source_def split: if_splits)

lemma parse_row_Inr:
  assumes "parse_row (prev, stt) row = Inr (prev', stt')"
  obtains s d t ex src trg where
    "row = s # d # t # ex" "d \<noteq> []"
    "resolve_source row prev s = Inr (src, prev')"
    "resolve_trigger row d t = Inr trg"
    "stt' = stt @ [mk_transition trg src d]"
proof (cases row rule: row_cases)
  case 1
  with assms show ?thesis by (simp add: parse_row_short)
next
  case (2 s d t ex)
  with assms that show ?thesis
    by (auto simp: parse_row_cells split: sum.splits if_splits)
qed

lemma parse_rows_append:
  "parse_rows st (xs @ ys) =
     (case parse_rows st xs of Inl e \<Rightarrow> Inl e | Inr st' \<Rightarrow> parse_rows st' ys)"
  by (induction xs arbitrary: st) (auto split: sum.splits)

subsection \<open>The loop over the rows\<close>

lemma parse_rows_snoc:
  "parse_rows st (xs @ [r]) =
     (case parse_rows st xs of Inl e \<Rightarrow> Inl e | Inr st' \<Rightarrow> parse_row st' r)"
  by (simp add: parse_rows_append split: sum.splits)

lemma parse_rows_inv:
  assumes "parse_rows (prev, stt) rows = Inr (prev', stt')"
    and "\<forall>p. prev = Some p \<longrightarrow> p \<noteq> []"
  shows "(\<forall>p. prev' = Some p \<longrightarrow> p \<noteq> []) \<and>
         (\<exists>new. stt' = stt @ new \<and> length new = length rows \<and>
            (\<forall>t\<in>set new. \<exists>trg s d. t = mk_transition trg s d \<and>
                 trg \<noteq> [] \<and> s \<noteq> [] \<and> d \<noteq> []))"
  using assms
proof (induction rows arbitrary: prev stt)
  case Nil
  then show ?case by simp
next
  case (Cons row rows)
  from Cons.prems(1) obtain p1 s1 where
    step: "parse_row (prev, stt) row = Inr (p1, s1)" and
    rest: "parse_rows (p1, s1) rows = Inr (prev', stt')"
    by (auto split: sum.splits)
  from step obtain s d t ex src trg where
    row: "row = s # d # t # ex" "d \<noteq> []"
    and rs: "resolve_source row prev s = Inr (src, p1)"
    and rt: "resolve_trigger row d t = Inr trg"
    and s1: "s1 = stt @ [mk_transition trg src d]"
    by (rule parse_row_Inr)
  from resolve_source_nonempty [OF rs Cons.prems(2)]
  have src: "src \<noteq> []" and p1: "\<forall>p. p1 = Some p \<longrightarrow> p \<noteq> []" by auto
  from resolve_trigger_nonempty [OF rt] have trg: "trg \<noteq> []" .
  from Cons.IH [OF rest p1] obtain new where
    new: "stt' = s1 @ new" "length new = length rows"
      "\<forall>t\<in>set new. \<exists>trg s d. t = mk_transition trg s d \<and> trg \<noteq> [] \<and> s \<noteq> [] \<and> d \<noteq> []"
    and p': "\<forall>p. prev' = Some p \<longrightarrow> p \<noteq> []"
    by blast
  let ?new = "mk_transition trg src d # new"
  have "stt' = stt @ ?new" using new(1) s1 by simp
  moreover have "length ?new = length (row # rows)" using new(2) by simp
  moreover have "\<forall>t\<in>set ?new. \<exists>trg s d. t = mk_transition trg s d \<and>
      trg \<noteq> [] \<and> s \<noteq> [] \<and> d \<noteq> []"
    using new(3) src trg row(2) by auto
  ultimately show ?case using p' by blast
qed

lemma validate_stt_mk:
  "\<forall>t\<in>set stt. \<exists>trg s d. t = mk_transition trg s d \<and> P trg s d \<Longrightarrow> validate_stt stt"
  by (auto simp: validate_stt_def list_all_iff mk_transition_def TRANSITION_KEYS_def)

lemma parse_rows_valid:
  assumes "parse_rows (None, []) rows = Inr (prev, stt)"
  shows "validate_stt stt"
proof -
  from parse_rows_inv [OF assms] have
    "\<forall>t\<in>set stt. \<exists>trg s d. t = mk_transition trg s d \<and>
       (trg \<noteq> [] \<and> s \<noteq> [] \<and> d \<noteq> [])" by auto
  then show ?thesis by (rule validate_stt_mk)
qed

lemma parse_Inr_iff:
  "parse (HEADER_ROW # rows) = Inr stt \<longleftrightarrow>
     (\<exists>prev. parse_rows (None, []) rows = Inr (prev, stt))"
  by (auto simp: parse_def parse_rows_valid split: sum.splits if_splits)

lemma parse_Inl:
  "parse_rows (None, []) rows = Inl e \<Longrightarrow> parse (HEADER_ROW # rows) = Inl e"
  by (simp add: parse_def)

lemma parse_rows_length:
  assumes "parse_rows (None, []) rows = Inr (prev, stt)"
  shows "length stt = length rows"
  using parse_rows_inv [OF assms] by auto

lemma parse_rows_take:
  assumes "parse_rows (None, []) rows = Inr (prev, stt)"
  shows "\<exists>p. parse_rows (None, []) (take n rows) = Inr (p, take n stt)"
proof -
  have "parse_rows (None, []) (take n rows @ drop n rows) = Inr (prev, stt)"
    using assms by simp
  then obtain p1 s1 where
    pre: "parse_rows (None, []) (take n rows) = Inr (p1, s1)" and
    post: "parse_rows (p1, s1) (drop n rows) = Inr (prev, stt)"
    unfolding parse_rows_append by (auto split: sum.splits)
  from parse_rows_inv [OF pre] have p1: "\<forall>p. p1 = Some p \<longrightarrow> p \<noteq> []" by simp
  from parse_rows_inv [OF post p1] obtain new where
    "stt = s1 @ new" "length new = length (drop n rows)" by blast
  moreover from parse_rows_length [OF pre] have "length s1 = length (take n rows)" .
  moreover from parse_rows_length [OF assms] have "length stt = length rows" .
  ultimately have "take n stt = s1"
    by (cases "n \<le> length rows") (simp_all add: min_def)
  with pre show ?thesis by blast
qed

lemma parse_rows_nth:
  assumes "parse_rows (None, []) rows = Inr (prev, stt)" and "i < length rows"
  shows "\<exists>p1 p2. parse_rows (None, []) (take i rows) = Inr (p1, take i stt) \<and>
           parse_row (p1, take i stt) (rows ! i) = Inr (p2, take i stt @ [stt ! i])"
proof -
  from parse_rows_take [OF assms(1), of i] obtain p1 where
    pre: "parse_rows (None, []) (take i rows) = Inr (p1, take i stt)" by blast
  from parse_rows_take [OF assms(1), of "Suc i"] obtain p2 where
    "parse_rows (None, []) (take (Suc i) rows) = Inr (p2, take (Suc i) stt)" by blast
  moreover have "take (Suc i) rows = take i rows @ [rows ! i]"
    using assms(2) by (simp add: take_Suc_conv_app_nth)
  moreover have "take (Suc i) stt = take i stt @ [stt ! i]"
    using assms(2) parse_rows_length [OF assms(1)] by (simp add: take_Suc_conv_app_nth)
  ultimately have "parse_row (p1, take i stt) (rows ! i) = Inr (p2, take i stt @ [stt ! i])"
    using pre by (simp add: parse_rows_snoc)
  with pre show ?thesis by blast
qed

lemma find_snoc:
  "find P (xs @ [x]) = (case find P xs of None \<Rightarrow> (if P x then Some x else None) | Some y \<Rightarrow> Some y)"
  by (induction xs) auto

lemma parse_rows_carry:
  "parse_rows (prev, stt) rows = Inr (prev', stt') \<Longrightarrow>
     prev' = (case find (\<lambda>r. r \<noteq> [] \<and> hd r \<noteq> []) (rev rows) of
                None \<Rightarrow> prev | Some r \<Rightarrow> Some (hd r))"
proof (induction rows arbitrary: prev stt)
  case Nil
  then show ?case by simp
next
  case (Cons row rows)
  from Cons.prems obtain p1 s1 where
    step: "parse_row (prev, stt) row = Inr (p1, s1)" and
    rest: "parse_rows (p1, s1) rows = Inr (prev', stt')"
    by (auto split: sum.splits)
  from step obtain s d t ex src trg where
    row: "row = s # d # t # ex"
    and rs: "resolve_source row prev s = Inr (src, p1)"
    by (rule parse_row_Inr)
  from rs row have p1: "p1 = (if s = [] then prev else Some s)"
    by (auto simp: resolve_source_def split: if_splits)
  from Cons.IH [OF rest] p1 row show ?case
    by (auto simp: find_snoc split: option.splits)
qed

subsection \<open>The parsed table\<close>

lemmas eval_defs =
  parse_def parse_row_def getitem_def resolve_source_def resolve_trigger_def
  parse_error_def validate_stt_def mk_transition_def sttp_consts timed_trigger_message_def
  py_int_def strip_def is_space_def is_digit_def digit_val_def int_max_str_digits_def
  str_int_def str_nat.simps

lemma example_parse:
  "parse [[''SOURCE'', ''DEST'', ''TRIGGER''],
          [''Idle'', ''Running'', ''_start''],
          ['''', ''Running'', ''__10''],
          [''Running'', ''Idle'', ''stop'']] =
   Inr [[(''trigger'', ''EVT_start''), (''source'', ''Idle''), (''dest'', ''Running'')],
        [(''trigger'', ''(after 10 sec.)''), (''source'', ''Idle''), (''dest'', ''Running'')],
        [(''trigger'', ''stop''), (''source'', ''Running''), (''dest'', ''Idle'')]]"
  by (simp add: eval_defs)

lemma header_row: "[''SOURCE'', ''DEST'', ''TRIGGER''] = HEADER_ROW"
  by (simp add: sttp_consts)

lemma parse_Inr_header:
  "parse stt_csv = Inr stt \<Longrightarrow> \<exists>rows. stt_csv = HEADER_ROW # rows"
  by (auto simp: parse_def split: list.splits if_splits)

lemma lookup_mk_transition [simp]:
  "lookup (mk_transition trg src d) ''trigger'' = Inr trg"
  "lookup (mk_transition trg src d) ''source'' = Inr src"
  "lookup (mk_transition trg src d) ''dest'' = Inr d"
  by (simp_all add: lookup_def mk_transition_def sttp_consts)

lemma parse_nth:
  assumes "parse (HEADER_ROW # rows) = Inr stt" and "i < length rows"
  obtains s d t ex p1 p2 src trg where
    "rows ! i = s # d # t # ex" "d \<noteq> []"
    "parse_rows (None, []) (take i rows) = Inr (p1, take i stt)"
    "resolve_source (rows ! i) p1 s = Inr (src, p2)"
    "resolve_trigger (rows ! i) d t = Inr trg"
    "stt ! i = mk_transition trg src d"
proof -
  from assms(1) obtain prev where all: "parse_rows (None, []) rows = Inr (prev, stt)"
    by (auto simp: parse_Inr_iff)
  from parse_rows_nth [OF all assms(2)] obtain p1 p2 where
    pre: "parse_rows (None, []) (take i rows) = Inr (p1, take i stt)" and
    step: "parse_row (p1, take i stt) (rows ! i) = Inr (p2, take i stt @ [stt ! i])"
    by blast
  from step obtain s d t ex src trg where
    "rows ! i = s # d # t # ex" "d \<noteq> []"
    "resolve_source (rows ! i) p1 s = Inr (src, p2)"
    "resolve_trigger (rows ! i) d t = Inr trg"
    "take i stt @ [stt ! i] = take i stt @ [mk_transition trg src d]"
    by (rule parse_row_Inr)
  with pre that show ?thesis by simp
qed

text \<open>
  C2 (as the code has it). The table with the header row and the data rows
  \<^verbatim>\<open>Idle,Running,_start\<close>, \<^verbatim>\<open>,Running,__10\<close>, \<^verbatim>\<open>Running,Idle,stop\<close> parses to three
  transitions, in order: \<open>(EVT_start, Idle, Running)\<close>, \<open>((after 10 sec.), Idle, Running)\<close>,
  \<open>(stop, Running, Idle)\<close>. The second row omits its source, so it carries the source
  of the row before it, \<open>Idle\<close>.
\<close>

theorem example_table_transitions:
  "parse [[''SOURCE'', ''DEST'', ''TRIGGER''],
          [''Idle'', ''Running'', ''_start''],
          ['''', ''Running'', ''__10''],
          [''Running'', ''Idle'', ''stop'']] =
   Inr [[(''trigger'', ''EVT_start''), (''source'', ''Idle''), (''dest'', ''Running'')],
        [(''trigger'', ''(after 10 sec.)''), (''source'', ''Idle''), (''dest'', ''Running'')],
        [(''trigger'', ''stop''), (''source'', ''Running''), (''dest'', ''Idle'')]]"
  by (rule example_parse)

text \<open>
  C2 as it is stated gives the second transition the source \<open>Running\<close>; the parse does
  not produce that sequence.
\<close>

theorem example_table_counterexample:
  "parse [[''SOURCE'', ''DEST'', ''TRIGGER''],
          [''Idle'', ''Running'', ''_start''],
          ['''', ''Running'', ''__10''],
          [''Running'', ''Idle'', ''stop'']] \<noteq>
   Inr [[(''trigger'', ''EVT_start''), (''source'', ''Idle''), (''dest'', ''Running'')],
        [(''trigger'', ''(after 10 sec.)''), (''source'', ''Running''), (''dest'', ''Running'')],
        [(''trigger'', ''stop''), (''source'', ''Running''), (''dest'', ''Idle'')]]"
  by (simp add: example_parse)

text \<open>
  C6. In every successfully parsed table, every transition has the three items
  \<open>trigger\<close>, \<open>source\<close>, \<open>dest\<close>, and each of the three strings is non-empty.
\<close>

theorem transitions_nonempty:
  assumes "parse stt_csv = Inr stt"
  shows "\<forall>t\<in>set stt. \<exists>trigger source dest.
           t = [(''trigger'', trigger), (''source'', source), (''dest'', dest)] \<and>
           trigger \<noteq> [] \<and> source \<noteq> [] \<and> dest \<noteq> []"
proof -
  from parse_Inr_header [OF assms] obtain rows where csv: "stt_csv = HEADER_ROW # rows" ..
  with assms obtain prev where "parse_rows (None, []) rows = Inr (prev, stt)"
    by (auto simp: parse_Inr_iff)
  from parse_rows_inv [OF this] show ?thesis
    by (simp add: mk_transition_def sttp_consts)
qed

theorem transitions_nonempty_witness:
  "parse [[''SOURCE'', ''DEST'', ''TRIGGER''],
          [''Idle'', ''Running'', ''_start''],
          ['''', ''Running'', ''__10'']] =
     Inr [[(''trigger'', ''EVT_start''), (''source'', ''Idle''), (''dest'', ''Running'')],
          [(''trigger'', ''(after 10 sec.)''), (''source'', ''Idle''), (''dest'', ''Running'')]] \<and>
   list_all
     (\<lambda>t. \<exists>trigger source dest.
        t = [(''trigger'', trigger), (''source'', source), (''dest'', dest)] \<and>
        trigger \<noteq> [] \<and> source \<noteq> [] \<and> dest \<noteq> [])
     [[(''trigger'', ''EVT_start''), (''source'', ''Idle''), (''dest'', ''Running'')],
      [(''trigger'', ''(after 10 sec.)''), (''source'', ''Idle''), (''dest'', ''Running'')]]"
proof -
  have p: "parse [[''SOURCE'', ''DEST'', ''TRIGGER''],
          [''Idle'', ''Running'', ''_start''],
          ['''', ''Running'', ''__10'']] =
     Inr [[(''trigger'', ''EVT_start''), (''source'', ''Idle''), (''dest'', ''Running'')],
          [(''trigger'', ''(after 10 sec.)''), (''source'', ''Idle''), (''dest'', ''Running'')]]"
    by (simp add: eval_defs)
  from transitions_nonempty [OF p] p show ?thesis
    unfolding list_all_iff by blast
qed

lemma parse_append_row:
  assumes "parse (HEADER_ROW # pre) = Inr stt"
  shows "\<exists>p. parse_rows (None, []) pre = Inr (p, stt) \<and> (p = None \<longleftrightarrow> pre = []) \<and>
           parse_rows (None, []) (pre @ row # post) =
             (case parse_row (p, stt) row of
                Inl e \<Rightarrow> Inl e | Inr st' \<Rightarrow> parse_rows st' post)"
proof -
  from assms obtain p where pre: "parse_rows (None, []) pre = Inr (p, stt)"
    by (auto simp: parse_Inr_iff)
  have "p = None \<longleftrightarrow> pre = []"
  proof (cases pre)
    case Nil
    with pre show ?thesis by simp
  next
    case (Cons r rs)
    with pre obtain p1 s1 where
      step: "parse_row (None, []) r = Inr (p1, s1)" and
      rest: "parse_rows (p1, s1) rs = Inr (p, stt)"
      by (auto split: sum.splits)
    from step obtain s d t ex src where
      "resolve_source r None s = Inr (src, p1)" by (rule parse_row_Inr)
    then have "p1 = Some s" "s \<noteq> []"
      by (auto simp: resolve_source_def split: if_splits)
    with parse_rows_carry [OF rest] have "p \<noteq> None"
      by (auto split: option.splits)
    with Cons show ?thesis by simp
  qed
  with pre show ?thesis by (auto simp: parse_rows_append)
qed

text \<open>
  C8. When parsing succeeds, the table has as many transitions as the input has data rows,
  the transitions stand in the order of their rows (the destinations of the transitions are
  the second cells of the rows, in order), and the transitions of the first \<open>n\<close> rows are
  the parse of those rows alone: no row is dropped and no two rows are merged.
\<close>

theorem one_transition_per_row:
  assumes "parse (HEADER_ROW # rows) = Inr stt"
  shows "length stt = length rows \<and>
         map (\<lambda>t. lookup t ''dest'') stt = map (\<lambda>row. getitem row 1) rows \<and>
         (\<forall>n. parse (HEADER_ROW # take n rows) = Inr (take n stt))"
proof -
  from assms obtain prev where all: "parse_rows (None, []) rows = Inr (prev, stt)"
    by (auto simp: parse_Inr_iff)
  have len: "length stt = length rows" by (rule parse_rows_length [OF all])
  have "lookup (stt ! i) ''dest'' = getitem (rows ! i) 1" if "i < length rows" for i
  proof -
    from assms that obtain s d t ex trg src where
      "rows ! i = s # d # t # ex" "stt ! i = mk_transition trg src d"
      by (rule parse_nth)
    then show ?thesis by (simp add: getitem_def)
  qed
  with len have dests: "map (\<lambda>t. lookup t ''dest'') stt = map (\<lambda>row. getitem row 1) rows"
    by (simp add: list_eq_iff_nth_eq)
  have "parse (HEADER_ROW # take n rows) = Inr (take n stt)" for n
    using parse_rows_take [OF all, of n] by (auto simp: parse_Inr_iff)
  with len dests show ?thesis by blast
qed

theorem one_transition_per_row_witness:
  "length [[(''trigger'', ''EVT_start''), (''source'', ''Idle''), (''dest'', ''Running'')],
           [(''trigger'', ''(after 10 sec.)''), (''source'', ''Idle''), (''dest'', ''Running'')],
           [(''trigger'', ''stop''), (''source'', ''Running''), (''dest'', ''Idle'')]] =
   length [[''Idle'', ''Running'', ''_start''], ['''', ''Running'', ''__10''],
           [''Running'', ''Idle'', ''stop'']] \<and>
   parse (HEADER_ROW # take 2 [[''Idle'', ''Running'', ''_start''], ['''', ''Running'', ''__10''],
           [''Running'', ''Idle'', ''stop'']]) =
   Inr [[(''trigger'', ''EVT_start''), (''source'', ''Idle''), (''dest'', ''Running'')],
        [(''trigger'', ''(after 10 sec.)''), (''source'', ''Idle''), (''dest'', ''Running'')]]"
  using one_transition_per_row [OF example_parse [unfolded header_row],
      THEN conjunct2, THEN conjunct2, THEN spec, of 2]
  by simp

text \<open>
  C9. A data row with fewer than three cells (a blank line is the row \<open>[]\<close>), reached after
  the rows before it parsed, makes the parse fail with \<open>IndexError\<close>, not with an
  \<open>STTPError\<close> that carries the row and an explanation.
\<close>

theorem short_row_index_error:
  assumes "parse (HEADER_ROW # pre) = Inr stt" and "length row < 3"
  shows "parse (HEADER_ROW # pre @ row # post) = Inl IndexError"
proof -
  from parse_append_row [OF assms(1), of row post] assms(2)
  have "parse_rows (None, []) (pre @ row # post) = Inl IndexError"
    by (auto simp: parse_row_short)
  then show ?thesis by (rule parse_Inl)
qed

theorem short_row_index_error_witness:
  "parse [[''SOURCE'', ''DEST'', ''TRIGGER''],
          [''Idle'', ''Running'', ''_start''],
          ['''', ''Running'', ''__10''],
          [''Running'', ''Idle'', ''stop''],
          [],
          [''Idle'', ''Running'', ''go'']] = Inl IndexError \<and>
   parse [[''SOURCE'', ''DEST'', ''TRIGGER''], [''Idle'', ''Running'']] = Inl IndexError"
proof -
  have e: "parse (HEADER_ROW # []) = Inr []"
    by (simp add: eval_defs)
  from short_row_index_error [OF example_parse [unfolded header_row], of "[]" "[[''Idle'', ''Running'', ''go'']]"]
    short_row_index_error [OF e, of "[''Idle'', ''Running'']" "[]"]
  show ?thesis by (simp add: header_row)
qed

lemma parse_row_take3:
  "parse_row st row = Inr x \<longleftrightarrow> parse_row st (take 3 row) = Inr x"
proof (cases row rule: row_cases)
  case 1
  then show ?thesis by simp
next
  case (2 s d t ex)
  have t3: "take 3 row = s # d # t # []" using 2 by (simp add: numeral_3_eq_3)
  show ?thesis
    unfolding t3 unfolding 2
    by (auto simp: parse_row_cells resolve_source_def resolve_trigger_def Let_def
          parse_error_def getitem_def split: option.splits)
qed

lemma parse_rows_take3:
  "parse_rows st rows = Inr x \<longleftrightarrow> parse_rows st (map (take 3) rows) = Inr x"
proof (induction rows arbitrary: st)
  case Nil
  show ?case by simp
next
  case (Cons row rows)
  show ?case
  proof (cases "parse_row st row")
    case (Inl e)
    with parse_row_take3 [of st row] have "\<forall>y. parse_row st (take 3 row) \<noteq> Inr y" by simp
    then obtain e' where "parse_row st (take 3 row) = Inl e'"
      by (cases "parse_row st (take 3 row)") auto
    with Inl show ?thesis by simp
  next
    case (Inr st')
    with parse_row_take3 [of st row st'] have "parse_row st (take 3 row) = Inr st'" by simp
    with Inr Cons.IH [of st'] show ?thesis by simp
  qed
qed

text \<open>
  C10. The cells of a data row beyond the third are ignored: a row with extra cells yields
  the same loop state (the same transition and the same carried source) as its first three
  cells alone, and a table parses to the same transitions as the table whose rows are cut
  to three cells; in particular the extra cells raise no error.
\<close>

theorem extra_cells_ignored:
  "(parse_row st (source # dest # trigger # extra) = Inr st' \<longleftrightarrow>
      parse_row st [source, dest, trigger] = Inr st') \<and>
   (parse (HEADER_ROW # rows) = Inr stt \<longleftrightarrow>
      parse (HEADER_ROW # map (take 3) rows) = Inr stt)"
proof -
  have "parse_row st (source # dest # trigger # extra) = Inr st' \<longleftrightarrow>
      parse_row st [source, dest, trigger] = Inr st'"
    using parse_row_take3 [of st "source # dest # trigger # extra" st']
    by (simp add: numeral_3_eq_3)
  moreover have "parse (HEADER_ROW # rows) = Inr stt \<longleftrightarrow>
      parse (HEADER_ROW # map (take 3) rows) = Inr stt"
    unfolding parse_Inr_iff using parse_rows_take3 [of "(None, [])" rows] by simp
  ultimately show ?thesis ..
qed


theorem extra_cells_ignored_witness:
  "parse [[''SOURCE'', ''DEST'', ''TRIGGER''], [''A'', ''B'', ''go'', ''extra'', ''cells'']] =
     Inr [[(''trigger'', ''go''), (''source'', ''A''), (''dest'', ''B'')]]"
proof -
  have "parse (HEADER_ROW # map (take 3) [[''A'', ''B'', ''go'', ''extra'', ''cells'']]) =
     Inr [[(''trigger'', ''go''), (''source'', ''A''), (''dest'', ''B'')]]"
    by (simp add: eval_defs)
  with extra_cells_ignored [THEN conjunct2,
      of "[[''A'', ''B'', ''go'', ''extra'', ''cells'']]"
         "[[(''trigger'', ''go''), (''source'', ''A''), (''dest'', ''B'')]]"]
  show ?thesis by (simp only: header_row)
qed

lemma timed_trigger_message_text:
  "timed_trigger_message suffix =
     ''A '__' prefix indicates a timed transition and must befollowed by a number (seconds). Invalid value: '' @ suffix"
  by (simp add: timed_trigger_message_def TIMED_TRANSITION_PREFIX_def)

lemma empty_table: "parse (HEADER_ROW # []) = Inr []"
  by (simp add: parse_def validate_stt_def)

text \<open>
  C5 (as the code has it). A row of at least three cells whose destination cell is empty,
  reached after the rows before it parsed, makes the parse fail: with the error
  \<open>Undefined destination state.\<close> whatever its trigger cell holds, when its source cell
  is non-empty or a row before it gave a source; with the error
  \<open>Undefined previous source state.\<close> when its source cell is empty and it is the first
  data row, because the source is resolved before the destination is looked at.
\<close>

theorem empty_dest_error:
  assumes "parse (HEADER_ROW # pre) = Inr stt"
  shows "parse (HEADER_ROW # pre @ (source # [] # trigger # extra) # post) =
     Inl (STTPError_row (source # [] # trigger # extra)
            (if source = [] \<and> pre = [] then ''Undefined previous source state.''
             else ''Undefined destination state.''))"
proof -
  let ?row = "source # [] # trigger # extra"
  from parse_append_row [OF assms, of ?row post] obtain p where
    p: "p = None \<longleftrightarrow> pre = []" and
    run: "parse_rows (None, []) (pre @ ?row # post) =
       (case parse_row (p, stt) ?row of Inl e \<Rightarrow> Inl e | Inr st' \<Rightarrow> parse_rows st' post)"
    by blast
  have "parse_row (p, stt) ?row =
     Inl (STTPError_row ?row
            (if source = [] \<and> pre = [] then ''Undefined previous source state.''
             else ''Undefined destination state.''))"
    using p by (simp add: parse_row_cells resolve_source_def parse_error_def)
  with run show ?thesis by (simp add: parse_Inl)
qed

theorem empty_dest_error_witness:
  "parse [[''SOURCE'', ''DEST'', ''TRIGGER''], [''A'', '''', ''go'']] =
     Inl (STTPError_row [''A'', '''', ''go''] ''Undefined destination state.'') \<and>
   parse [[''SOURCE'', ''DEST'', ''TRIGGER''],
          [''Idle'', ''Running'', ''_start''],
          ['''', ''Running'', ''__10''],
          [''Running'', ''Idle'', ''stop''],
          ['''', '''', '''']] =
     Inl (STTPError_row ['''', '''', ''''] ''Undefined destination state.'')"
  using empty_dest_error [OF empty_table, of "''A''" "''go''" "[]" "[]"]
    empty_dest_error [OF example_parse [unfolded header_row], of "[]" "[]" "[]" "[]"]
  by (simp add: header_row)

text \<open>
  C5 as it is stated fails on a first data row whose source and destination cells are both
  empty: the error is the one for the missing source, not the one for the missing
  destination.
\<close>

theorem empty_dest_counterexample:
  "parse [[''SOURCE'', ''DEST'', ''TRIGGER''], ['''', '''', ''x'']] =
     Inl (STTPError_row ['''', '''', ''x''] ''Undefined previous source state.'') \<and>
   parse [[''SOURCE'', ''DEST'', ''TRIGGER''], ['''', '''', ''x'']] \<noteq>
     Inl (STTPError_row ['''', '''', ''x''] ''Undefined destination state.'')"
  by (simp add: eval_defs)

lemma parse_snoc_row:
  assumes "parse (HEADER_ROW # pre) = Inr stt"
    and "dest \<noteq> []" and "source \<noteq> [] \<or> pre \<noteq> []"
    and "resolve_trigger (source # dest # trigger # extra) dest trigger = Inr trg"
  shows "\<exists>src. parse (HEADER_ROW # pre @ [source # dest # trigger # extra]) =
           Inr (stt @ [mk_transition trg src dest])"
proof -
  let ?row = "source # dest # trigger # extra"
  from parse_append_row [OF assms(1), of ?row "[]"] obtain p where
    p: "p = None \<longleftrightarrow> pre = []" and
    run: "parse_rows (None, []) (pre @ [?row]) =
       (case parse_row (p, stt) ?row of Inl e \<Rightarrow> Inl e | Inr st' \<Rightarrow> parse_rows st' [])"
    by blast
  from p assms(3) obtain src p' where
    "resolve_source ?row p source = Inr (src, p')"
    by (cases "source = []") (simp_all add: resolve_source_def)
  with assms(2,4) have "parse_row (p, stt) ?row = Inr (p', stt @ [mk_transition trg src dest])"
    by (simp add: parse_row_cells)
  with run have "parse_rows (None, []) (pre @ [?row]) =
      Inr (p', stt @ [mk_transition trg src dest])" by simp
  then have "parse (HEADER_ROW # pre @ [?row]) = Inr (stt @ [mk_transition trg src dest])"
    unfolding parse_Inr_iff by blast
  then show ?thesis ..
qed

lemma parse_row_trigger_error:
  assumes "parse (HEADER_ROW # pre) = Inr stt"
    and "dest \<noteq> []" and "source \<noteq> [] \<or> pre \<noteq> []"
    and "resolve_trigger (source # dest # trigger # extra) dest trigger = Inl e"
  shows "parse (HEADER_ROW # pre @ (source # dest # trigger # extra) # post) = Inl e"
proof -
  let ?row = "source # dest # trigger # extra"
  from parse_append_row [OF assms(1), of ?row post] obtain p where
    p: "p = None \<longleftrightarrow> pre = []" and
    run: "parse_rows (None, []) (pre @ ?row # post) =
       (case parse_row (p, stt) ?row of Inl e \<Rightarrow> Inl e | Inr st' \<Rightarrow> parse_rows st' post)"
    by blast
  from p assms(3) obtain src p' where
    "resolve_source ?row p source = Inr (src, p')"
    by (cases "source = []") (simp_all add: resolve_source_def)
  with assms(2,4) have "parse_row (p, stt) ?row = Inl e"
    by (simp add: parse_row_cells)
  with run show ?thesis by (simp add: parse_Inl)
qed

lemma resolve_trigger_timed:
  "resolve_trigger row dest (''__'' @ suffix) =
     (case py_int suffix of
        None \<Rightarrow> Inl (STTPError_row row (timed_trigger_message suffix))
      | Some seconds \<Rightarrow> Inr (''(after '' @ str_int seconds @ '' sec.)''))"
  by (simp add: resolve_trigger_def TIMED_TRANSITION_PREFIX_def parse_error_def
        split: option.splits)

text \<open>
  C4. Take a row whose trigger cell starts with \<open>__\<close>, reached after the rows before it
  parsed, with a destination and a source (its own, or one carried). If \<^verbatim>\<open>int\<close> reads the
  rest of the cell as the integer \<open>N\<close>, the row's transition has the trigger
  \<open>(after N sec.)\<close>; if \<^verbatim>\<open>int\<close> refuses it, the parse fails with the \<open>STTPError\<close> of that
  row whose message ends with \<open>Invalid value: \<close> and the rest of the cell.
\<close>

theorem timed_transition_trigger:
  assumes "parse (HEADER_ROW # pre) = Inr stt"
    and "dest \<noteq> []" and "source \<noteq> [] \<or> pre \<noteq> []"
    and "row = source # dest # (''__'' @ suffix) # extra"
  shows "case py_int suffix of
           None \<Rightarrow>
             parse (HEADER_ROW # pre @ row # post) =
               Inl (STTPError_row row
                 (''A '__' prefix indicates a timed transition and must befollowed by a number (seconds). Invalid value: '' @ suffix))
         | Some seconds \<Rightarrow>
             (\<exists>src. parse (HEADER_ROW # pre @ [row]) =
                Inr (stt @ [[(''trigger'', ''(after '' @ str_int seconds @ '' sec.)''),
                             (''source'', src), (''dest'', dest)]]))"
proof (cases "py_int suffix")
  case None
  then have "resolve_trigger row dest (''__'' @ suffix) =
      Inl (STTPError_row row (timed_trigger_message suffix))"
    using resolve_trigger_timed [of row dest suffix] by simp
  from parse_row_trigger_error [OF assms(1-3) this [unfolded assms(4)], of post] None
  show ?thesis by (simp add: assms(4) timed_trigger_message_text)
next
  case (Some seconds)
  then have "resolve_trigger row dest (''__'' @ suffix) =
      Inr (''(after '' @ str_int seconds @ '' sec.)'')"
    using resolve_trigger_timed [of row dest suffix] by simp
  from parse_snoc_row [OF assms(1-3) this [unfolded assms(4)]] Some
  show ?thesis by (simp add: assms(4) mk_transition_def sttp_consts)
qed

lemma py_int_5: "py_int ''5'' = Some 5"
  by (simp add: eval_defs)

lemma py_int_abc: "py_int ''abc'' = None"
  by (simp add: eval_defs)

lemma str_int_5: "str_int 5 = ''5''"
  by (simp add: eval_defs)

theorem timed_transition_trigger_witness:
  "(\<exists>src. parse [[''SOURCE'', ''DEST'', ''TRIGGER''], [''A'', ''B'', ''__5'']] =
      Inr [[(''trigger'', ''(after 5 sec.)''), (''source'', src), (''dest'', ''B'')]]) \<and>
   parse [[''SOURCE'', ''DEST'', ''TRIGGER''], [''A'', ''B'', ''__abc''], [''B'', ''A'', ''go'']] =
     Inl (STTPError_row [''A'', ''B'', ''__abc'']
       ''A '__' prefix indicates a timed transition and must befollowed by a number (seconds). Invalid value: abc'')"
  using timed_transition_trigger [OF empty_table, of "''B''" "''A''" "[''A'', ''B'', ''__5'']" "''5''" "[]" "[]"]
    timed_transition_trigger [OF empty_table, of "''B''" "''A''" "[''A'', ''B'', ''__abc'']" "''abc''" "[]"
      "[[''B'', ''A'', ''go'']]"]
  by (simp add: py_int_5 py_int_abc str_int_5 header_row)

lemma resolve_trigger_auto_named:
  assumes "dest \<noteq> []" and "take 1 dest \<noteq> ''_''"
  shows "resolve_trigger row dest [] = Inr (''EVT_'' @ dest)"
  using assms
  by (cases dest) (simp_all add: resolve_trigger_def getitem_def sttp_consts)

text \<open>
  An omitted trigger becomes the event named after the destination, for every destination
  that does not itself begin with an underscore.
\<close>

lemma auto_named_event:
  assumes "parse (HEADER_ROW # pre) = Inr stt"
    and "dest \<noteq> []" and "take 1 dest \<noteq> ''_''" and "source \<noteq> [] \<or> pre \<noteq> []"
  shows "\<exists>src. parse (HEADER_ROW # pre @ [source # dest # [] # extra]) =
           Inr (stt @ [[(''trigger'', ''EVT_'' @ dest), (''source'', src), (''dest'', dest)]])"
  using parse_snoc_row [OF assms(1,2,4) resolve_trigger_auto_named [OF assms(2,3)]]
  by (simp add: mk_transition_def sttp_consts)

text \<open>
  C1 at destinations that begin with an underscore. The trigger synthesized for an omitted
  trigger cell is \<open>_\<close> followed by the destination, so it begins with \<open>__\<close> and is read
  as a timed transition: with the destination \<open>_5\<close> the transition gets the trigger
  \<open>(after 5 sec.)\<close>, not \<open>EVT__5\<close>; with the destination \<open>_x\<close> the parse fails with the
  error of an invalid timed trigger.
\<close>

theorem auto_named_event_underscore_dest:
  "parse [[''SOURCE'', ''DEST'', ''TRIGGER''], [''A'', ''_5'', '''']] =
     Inr [[(''trigger'', ''(after 5 sec.)''), (''source'', ''A''), (''dest'', ''_5'')]] \<and>
   parse [[''SOURCE'', ''DEST'', ''TRIGGER''], [''A'', ''_x'', '''']] =
     Inl (STTPError_row [''A'', ''_x'', '''']
       ''A '__' prefix indicates a timed transition and must befollowed by a number (seconds). Invalid value: x'')"
  by (simp add: eval_defs Let_def)

text \<open>
  C3. Take a data row whose source cell is empty. If the table parses, some row before it
  has a non-empty source cell, and the row's transition has the source of the nearest such
  row (all rows between the two have an empty source cell). If no row before it has a
  non-empty source cell (the rows up to it having three cells or more), the parse fails
  with the \<open>STTPError\<close> whose message is \<open>Undefined previous source state.\<close>, raised at
  the first data row.
\<close>

theorem omitted_source_carried:
  assumes "i < length rows" and "getitem (rows ! i) 0 = Inr []"
  shows "(\<forall>stt. parse (HEADER_ROW # rows) = Inr stt \<longrightarrow>
            (\<exists>r. find (\<lambda>r. r \<noteq> [] \<and> hd r \<noteq> []) (rev (take i rows)) = Some r \<and>
                 lookup (stt ! i) ''source'' = Inr (hd r))) \<and>
         (find (\<lambda>r. r \<noteq> [] \<and> hd r \<noteq> []) (rev (take i rows)) = None \<and>
          (\<forall>j\<le>i. 3 \<le> length (rows ! j)) \<longrightarrow>
            parse (HEADER_ROW # rows) =
              Inl (STTPError_row (rows ! 0) ''Undefined previous source state.''))"
proof (intro conjI allI impI)
  fix stt
  assume ok: "parse (HEADER_ROW # rows) = Inr stt"
  from ok assms(1) obtain s d t ex p1 p2 src trg where
    row: "rows ! i = s # d # t # ex" and
    pre: "parse_rows (None, []) (take i rows) = Inr (p1, take i stt)" and
    rs: "resolve_source (rows ! i) p1 s = Inr (src, p2)" and
    tr: "stt ! i = mk_transition trg src d"
    by (rule parse_nth)
  from assms(2) row have s: "s = []" by (simp add: getitem_def)
  from rs s obtain p where p1: "p1 = Some p" and src: "src = p"
    by (auto simp: resolve_source_def split: if_splits)
  from parse_rows_carry [OF pre] p1 obtain r where
    "find (\<lambda>r. r \<noteq> [] \<and> hd r \<noteq> []) (rev (take i rows)) = Some r" "p = hd r"
    by (auto split: option.splits)
  with tr src
  show "\<exists>r. find (\<lambda>r. r \<noteq> [] \<and> hd r \<noteq> []) (rev (take i rows)) = Some r \<and>
          lookup (stt ! i) ''source'' = Inr (hd r)"
    by simp
next
  assume h: "find (\<lambda>r. r \<noteq> [] \<and> hd r \<noteq> []) (rev (take i rows)) = None \<and>
    (\<forall>j\<le>i. 3 \<le> length (rows ! j))"
  from assms(1) obtain r0 rest where rows: "rows = r0 # rest" by (cases rows) auto
  from h have "3 \<le> length r0" using rows by auto
  then obtain s d t ex where r0: "r0 = s # d # t # ex"
    by (cases r0 rule: row_cases) auto
  have "s = []"
  proof (cases i)
    case 0
    with assms(2) rows r0 show ?thesis by (simp add: getitem_def)
  next
    case (Suc k)
    then have "r0 \<in> set (rev (take i rows))" using rows by simp
    with h have "\<not> (r0 \<noteq> [] \<and> hd r0 \<noteq> [])" by (auto simp: find_None_iff)
    with r0 show ?thesis by simp
  qed
  with r0 have "parse_row (None, []) r0 =
      Inl (STTPError_row r0 ''Undefined previous source state.'')"
    by (simp add: parse_row_cells resolve_source_def parse_error_def)
  then have "parse_rows (None, []) rows =
      Inl (STTPError_row r0 ''Undefined previous source state.'')"
    using rows by simp
  then show "parse (HEADER_ROW # rows) =
      Inl (STTPError_row (rows ! 0) ''Undefined previous source state.'')"
    using rows by (simp add: parse_Inl)
qed

theorem omitted_source_carried_witness:
  "find (\<lambda>r. r \<noteq> [] \<and> hd r \<noteq> [])
     (rev (take 2 [[''Idle'', ''Running'', ''_start''], ['''', ''Running'', ''__10''],
                   ['''', ''Idle'', ''stop'']])) = Some [''Idle'', ''Running'', ''_start''] \<and>
   (\<exists>stt. parse [[''SOURCE'', ''DEST'', ''TRIGGER''],
                [''Idle'', ''Running'', ''_start''],
                ['''', ''Running'', ''__10''],
                ['''', ''Idle'', ''stop'']] = Inr stt \<and>
          lookup (stt ! 2) ''source'' = Inr ''Idle'') \<and>
   parse [[''SOURCE'', ''DEST'', ''TRIGGER''], ['''', ''Running'', ''go'']] =
     Inl (STTPError_row ['''', ''Running'', ''go''] ''Undefined previous source state.'')"
proof -
  have p: "parse (HEADER_ROW # [[''Idle'', ''Running'', ''_start''], ['''', ''Running'', ''__10''],
                   ['''', ''Idle'', ''stop'']]) =
      Inr [[(''trigger'', ''EVT_start''), (''source'', ''Idle''), (''dest'', ''Running'')],
           [(''trigger'', ''(after 10 sec.)''), (''source'', ''Idle''), (''dest'', ''Running'')],
           [(''trigger'', ''stop''), (''source'', ''Idle''), (''dest'', ''Idle'')]]"
    by (simp add: eval_defs)
  have f: "find (\<lambda>r. r \<noteq> [] \<and> hd r \<noteq> [])
     (rev (take 2 [[''Idle'', ''Running'', ''_start''], ['''', ''Running'', ''__10''],
                   ['''', ''Idle'', ''stop'']])) = Some [''Idle'', ''Running'', ''_start'']"
    by simp
  from omitted_source_carried [of 2 "[[''Idle'', ''Running'', ''_start''],
      ['''', ''Running'', ''__10''], ['''', ''Idle'', ''stop'']]", THEN conjunct1, THEN spec, THEN mp, OF _ _ p]
  have a: "lookup ([[(''trigger'', ''EVT_start''), (''source'', ''Idle''), (''dest'', ''Running'')],
           [(''trigger'', ''(after 10 sec.)''), (''source'', ''Idle''), (''dest'', ''Running'')],
           [(''trigger'', ''stop''), (''source'', ''Idle''), (''dest'', ''Idle'')]] ! 2) ''source'' = Inr ''Idle''"
    by (simp add: getitem_def)
  from omitted_source_carried [of 0 "[['''', ''Running'', ''go'']]", THEN conjunct2]
  have b: "parse (HEADER_ROW # [['''', ''Running'', ''go'']]) =
     Inl (STTPError_row ['''', ''Running'', ''go''] ''Undefined previous source state.'')"
    by (simp add: getitem_def)
  from f p a b show ?thesis unfolding header_row by blast
qed

subsection \<open>The adjacency mapping of a parsed table\<close>

lemma dictify_step_mk:
  "dictify_step adj (mk_transition trg s d) =
     Inr (adj(s \<mapsto> (case adj s of None \<Rightarrow> Map.empty | Some m \<Rightarrow> m)(d \<mapsto> trg)))"
  by (simp add: dictify_step_def)

lemma map_of_mk_transition [simp]:
  "map_of (mk_transition trg s d) ''trigger'' = Some trg"
  "map_of (mk_transition trg s d) ''source'' = Some s"
  "map_of (mk_transition trg s d) ''dest'' = Some d"
  by (simp_all add: mk_transition_def sttp_consts)

lemma dictify_loop_last:
  assumes "\<forall>t\<in>set ts. \<exists>trg s d. t = mk_transition trg s d"
  shows "\<exists>adj'. dictify_loop adj ts = Inr adj' \<and>
           (\<forall>s d. (case adj' s of None \<Rightarrow> None | Some m \<Rightarrow> m d) =
              (case rev (filter (\<lambda>t. map_of t ''source'' = Some s \<and> map_of t ''dest'' = Some d) ts) of
                 [] \<Rightarrow> (case adj s of None \<Rightarrow> None | Some m \<Rightarrow> m d)
               | t # _ \<Rightarrow> map_of t ''trigger''))"
  using assms
proof (induction ts arbitrary: adj)
  case Nil
  then show ?case by simp
next
  case (Cons t ts)
  from Cons.prems obtain trg0 s0 d0 where t: "t = mk_transition trg0 s0 d0" by auto
  let ?adj1 = "adj(s0 \<mapsto> (case adj s0 of None \<Rightarrow> Map.empty | Some m \<Rightarrow> m)(d0 \<mapsto> trg0))"
  from Cons.prems have "\<forall>t\<in>set ts. \<exists>trg s d. t = mk_transition trg s d" by simp
  from Cons.IH [OF this, of ?adj1] obtain adj' where
    loop: "dictify_loop ?adj1 ts = Inr adj'" and
    last: "\<And>s d. (case adj' s of None \<Rightarrow> None | Some m \<Rightarrow> m d) =
              (case rev (filter (\<lambda>t. map_of t ''source'' = Some s \<and> map_of t ''dest'' = Some d) ts) of
                 [] \<Rightarrow> (case ?adj1 s of None \<Rightarrow> None | Some m \<Rightarrow> m d)
               | t # _ \<Rightarrow> map_of t ''trigger'')"
    by blast
  have "dictify_loop adj (t # ts) = Inr adj'"
    using loop t by (simp add: dictify_step_mk)
  moreover have "(case adj' s of None \<Rightarrow> None | Some m \<Rightarrow> m d) =
      (case rev (filter (\<lambda>t. map_of t ''source'' = Some s \<and> map_of t ''dest'' = Some d) (t # ts)) of
         [] \<Rightarrow> (case adj s of None \<Rightarrow> None | Some m \<Rightarrow> m d)
       | t # _ \<Rightarrow> map_of t ''trigger'')" for s d
    unfolding last [where s = s and d = d] using t
    by (auto split: list.splits option.splits)
  ultimately show ?case by blast
qed

text \<open>
  C7. For a parsed table, \<^verbatim>\<open>dictify\<close> returns a mapping whose entry for a source \<open>s\<close> and a
  destination \<open>d\<close> is the trigger of the last transition, in input order, from \<open>s\<close> to
  \<open>d\<close>, and is missing when the table has no transition from \<open>s\<close> to \<open>d\<close>.
\<close>

theorem dictify_last_write_wins:
  assumes "parse stt_csv = Inr stt"
  shows "\<exists>adj. dictify stt_csv = Inr adj \<and>
           (\<forall>s d. (case adj s of None \<Rightarrow> None | Some m \<Rightarrow> m d) =
              (case rev (filter (\<lambda>t. map_of t ''source'' = Some s \<and> map_of t ''dest'' = Some d) stt) of
                 [] \<Rightarrow> None
               | t # _ \<Rightarrow> map_of t ''trigger''))"
proof -
  from parse_Inr_header [OF assms] obtain rows where csv: "stt_csv = HEADER_ROW # rows" ..
  with assms obtain prev where "parse_rows (None, []) rows = Inr (prev, stt)"
    by (auto simp: parse_Inr_iff)
  from parse_rows_inv [OF this]
  have "\<forall>t\<in>set stt. \<exists>trg s d. t = mk_transition trg s d \<and>
      trg \<noteq> [] \<and> s \<noteq> [] \<and> d \<noteq> []" by simp
  then have "\<forall>t\<in>set stt. \<exists>trg s d. t = mk_transition trg s d" by blast
  from dictify_loop_last [OF this, of Map.empty] assms show ?thesis
    by (simp add: dictify_def cong: list.case_cong)
qed

theorem dictify_last_write_wins_witness:
  "\<exists>adj. dictify [[''SOURCE'', ''DEST'', ''TRIGGER''], [''A'', ''B'', ''x''], [''A'', ''B'', ''y'']] =
           Inr adj \<and>
         (case adj ''A'' of None \<Rightarrow> None | Some m \<Rightarrow> m ''B'') = Some ''y''"
proof -
  have p: "parse [[''SOURCE'', ''DEST'', ''TRIGGER''], [''A'', ''B'', ''x''], [''A'', ''B'', ''y'']] =
      Inr [[(''trigger'', ''x''), (''source'', ''A''), (''dest'', ''B'')],
           [(''trigger'', ''y''), (''source'', ''A''), (''dest'', ''B'')]]"
    by (simp add: eval_defs)
  from dictify_last_write_wins [OF p] obtain adj where
    d: "dictify [[''SOURCE'', ''DEST'', ''TRIGGER''], [''A'', ''B'', ''x''], [''A'', ''B'', ''y'']] =
          Inr adj" and
    e: "\<And>s d. (case adj s of None \<Rightarrow> None | Some m \<Rightarrow> m d) =
          (case rev (filter (\<lambda>t. map_of t ''source'' = Some s \<and> map_of t ''dest'' = Some d)
              [[(''trigger'', ''x''), (''source'', ''A''), (''dest'', ''B'')],
               [(''trigger'', ''y''), (''source'', ''A''), (''dest'', ''B'')]]) of
             [] \<Rightarrow> None
           | t # _ \<Rightarrow> map_of t ''trigger'')"
    by blast
  have "(case adj ''A'' of None \<Rightarrow> None | Some m \<Rightarrow> m ''B'') = Some ''y''"
    unfolding e [where s = "''A''" and d = "''B''"] by simp
  with d show ?thesis by blast
qed

end
